theory Spec2Isabelle
  imports Complex_Main
begin

section \<open>Python values\<close>

text \<open>
  The statistics service answers each request with a JSON document. Python reads it as
  nested dicts, lists, strings, numbers, booleans and \<^verbatim>\<open>None\<close>. A dict is the list of
  its items in insertion order; Python keeps keys unique, which the list type does not
  enforce, so every dict the model builds is built with \<open>dict_set\<close>.
\<close>

datatype json =
    JNull
  | JBool bool
  | JNum real
  | JStr string
  | JArr "json list"
  | JObj "(string \<times> json) list"

type_synonym pydict = "(string \<times> json) list"

text \<open>The exceptions the normalization cell can raise.\<close>

datatype error = KeyError | ValueError | AttributeError

text \<open>\<^verbatim>\<open>d[k] = v\<close>: an existing key keeps its place, a new key goes last.\<close>

fun dict_set :: "(string \<times> 'v) list \<Rightarrow> string \<Rightarrow> 'v \<Rightarrow> (string \<times> 'v) list" where
  "dict_set [] k v = [(k, v)]"
| "dict_set ((k', v') # d) k v = (if k' = k then (k, v) # d else (k', v') # dict_set d k v)"

text \<open>\<^verbatim>\<open>{**d, **items}\<close>, and with \<open>d = []\<close> a dict comprehension over \<open>items\<close>.\<close>

definition dict_update :: "(string \<times> 'v) list \<Rightarrow> (string \<times> 'v) list \<Rightarrow> (string \<times> 'v) list" where
  "dict_update d items = fold (\<lambda>(k, v) acc. dict_set acc k v) items d"

text \<open>\<^verbatim>\<open>s.startswith(p)\<close> and \<^verbatim>\<open>sub in s\<close> on strings.\<close>

fun startswith :: "string \<Rightarrow> string \<Rightarrow> bool" where
  "startswith s [] = True"
| "startswith [] (p # ps) = False"
| "startswith (c # cs) (p # ps) = (c = p \<and> startswith cs ps)"

fun str_contains :: "string \<Rightarrow> string \<Rightarrow> bool" where
  "str_contains sub [] = (sub = [])"
| "str_contains sub (c # cs) = (startswith (c # cs) sub \<or> str_contains sub cs)"

text \<open>
  \<^verbatim>\<open>s.split(sep)\<close> for a separator of one character: the pieces between the
  separators, empty pieces included; the result is never the empty list.
\<close>

fun split :: "char \<Rightarrow> string \<Rightarrow> string list" where
  "split sep [] = [[]]"
| "split sep (c # cs) =
     (if c = sep then [] # split sep cs
      else (case split sep cs of [] \<Rightarrow> [[c]] | w # ws \<Rightarrow> (c # w) # ws))"

section \<open>The pandas operations the notebook calls\<close>

text \<open>
  A data frame is its list of column labels and its rows, each row holding one cell per
  column, in column order. Labels may repeat (renaming can make them equal). A cell holds
  the Python value read from the payload, or NaN where a record has no value for the
  column. The row index is the position in the list (\<^verbatim>\<open>ignore_index=True\<close>).
\<close>

datatype cell = NaN | Val json

record dataframe =
  columns :: "string list"
  rows :: "cell list list"

text \<open>The cell of row \<open>r\<close> under the label \<open>c\<close> (the first such column); NaN when there is none.\<close>

definition lookup :: "string list \<Rightarrow> cell list \<Rightarrow> string \<Rightarrow> cell" where
  "lookup cols r c = (case map_of (zip cols r) c of None \<Rightarrow> NaN | Some v \<Rightarrow> v)"

text \<open>
  \<^verbatim>\<open>pd.json_normalize\<close> flattens each record: values that are not dicts keep their key
  and come first, nested dicts are walked depth first and their leaves are keyed by the
  path joined with dots.
\<close>

fun is_dict :: "json \<Rightarrow> bool" where
  "is_dict (JObj _) = True"
| "is_dict _ = False"

definition new_key :: "string \<Rightarrow> string \<Rightarrow> string" where
  "new_key key_string key = (if key_string = [] then key else key_string @ ''.'' @ key)"

fun normalise_json :: "json \<Rightarrow> string \<Rightarrow> pydict \<Rightarrow> pydict" where
  "normalise_json (JObj items) key_string normalized_dict =
     fold (\<lambda>(key, v) nd. normalise_json v (new_key key_string key) nd) items normalized_dict"
| "normalise_json v key_string normalized_dict = dict_set normalized_dict key_string v"

definition normalise_json_ordered :: "pydict \<Rightarrow> pydict" where
  "normalise_json_ordered d =
     (let top_dict = dict_update [] (filter (\<lambda>(k, v). \<not> is_dict v) d);
          nested_dict = normalise_json (JObj (filter (\<lambda>(k, v). is_dict v) d)) [] []
      in dict_update top_dict nested_dict)"

text \<open>The union of label lists, each label at its first appearance.\<close>

definition add_labels :: "string list \<Rightarrow> string list \<Rightarrow> string list" where
  "add_labels cols ks = fold (\<lambda>k cols. if k \<in> set cols then cols else cols @ [k]) ks cols"

definition union_labels :: "string list list \<Rightarrow> string list" where
  "union_labels kss = fold (\<lambda>ks cols. add_labels cols ks) kss []"

text \<open>\<^verbatim>\<open>pd.DataFrame(list_of_dicts)\<close>: one row per dict, NaN for a missing key.\<close>

definition DataFrame :: "pydict list \<Rightarrow> dataframe" where
  "DataFrame ds =
     (let cols = union_labels (map (map fst) ds)
      in \<lparr>columns = cols,
          rows = map (\<lambda>d. map (\<lambda>c. case map_of d c of None \<Rightarrow> NaN | Some v \<Rightarrow> Val v) cols) ds\<rparr>)"

definition json_normalize :: "pydict list \<Rightarrow> dataframe" where
  "json_normalize ds =
     (if ds = [] then \<lparr>columns = [], rows = []\<rparr>
      else DataFrame (map normalise_json_ordered ds))"

text \<open>
  \<^verbatim>\<open>df[key] = values\<close>: every column labelled \<open>key\<close> is overwritten; when there is
  none, a new column is appended. \<^verbatim>\<open>df[key] = scalar\<close> gives every row the scalar.
\<close>

definition setitem :: "dataframe \<Rightarrow> string \<Rightarrow> cell list \<Rightarrow> dataframe" where
  "setitem df key vals =
     (if key \<in> set (columns df)
      then df\<lparr>rows := map (\<lambda>(r, v). map (\<lambda>(c, x). if c = key then v else x) (zip (columns df) r))
                          (zip (rows df) vals)\<rparr>
      else df\<lparr>columns := columns df @ [key],
              rows := map (\<lambda>(r, v). r @ [v]) (zip (rows df) vals)\<rparr>)"

definition setitem_scalar :: "dataframe \<Rightarrow> string \<Rightarrow> cell \<Rightarrow> dataframe" where
  "setitem_scalar df key v = setitem df key (replicate (length (rows df)) v)"

text \<open>
  \<^verbatim>\<open>pd.concat(objs, ignore_index=True)\<close>: the frames' rows one frame after the other,
  each row laid out on the union of the columns; an empty list of frames raises.
\<close>

definition concat_frames :: "dataframe list \<Rightarrow> error + dataframe" where
  "concat_frames objs =
     (if objs = [] then Inl ValueError
      else (let cols = union_labels (map columns objs)
            in Inr \<lparr>columns = cols,
                    rows = concat (map (\<lambda>df. map (\<lambda>r. map (lookup (columns df) r) cols) (rows df)) objs)\<rparr>))"

text \<open>
  \<^verbatim>\<open>pd.to_numeric(..., errors="coerce")\<close> on one cell. Numbers stay, booleans count as
  1 and 0, a string is parsed, and whatever has no numeric value becomes NaN. How pandas
  reads a string as a float is not part of the notebook: \<open>parse\<close> is a parameter.
\<close>

definition numeric_value :: "(string \<Rightarrow> real option) \<Rightarrow> cell \<Rightarrow> real option" where
  "numeric_value parse x =
     (case x of
        Val (JNum r) \<Rightarrow> Some r
      | Val (JBool b) \<Rightarrow> Some (if b then 1 else 0)
      | Val (JStr s) \<Rightarrow> parse s
      | _ \<Rightarrow> None)"

definition to_numeric :: "(string \<Rightarrow> real option) \<Rightarrow> cell \<Rightarrow> cell" where
  "to_numeric parse x = (case numeric_value parse x of None \<Rightarrow> NaN | Some r \<Rightarrow> Val (JNum r))"

text \<open>\<^verbatim>\<open>df[keys] = df[keys].apply(f)\<close> for a function \<open>f\<close> that works cell by cell.\<close>

definition apply_columns :: "dataframe \<Rightarrow> string list \<Rightarrow> (cell \<Rightarrow> cell) \<Rightarrow> dataframe" where
  "apply_columns df keys f =
     df\<lparr>rows := map (\<lambda>r. map (\<lambda>(c, x). if c \<in> set keys then f x else x) (zip (columns df) r)) (rows df)\<rparr>"

text \<open>\<^verbatim>\<open>df.rename(columns=f)\<close>\<close>

definition rename_columns :: "dataframe \<Rightarrow> (string \<Rightarrow> string) \<Rightarrow> dataframe" where
  "rename_columns df f = df\<lparr>columns := map f (columns df)\<rparr>"

text \<open>
  \<^verbatim>\<open>df[key]\<close> followed by \<^verbatim>\<open>.astype("datetime64[ns, UTC]").dt.month\<close>. A missing
  label raises \<^verbatim>\<open>KeyError\<close>. A label that several columns carry selects a frame: its
  cells are converted, and then \<^verbatim>\<open>.dt\<close> raises \<^verbatim>\<open>AttributeError\<close>. The conversion of
  one cell to the month of its timestamp is pandas's own and a parameter here
  (\<open>dt_month\<close>, which raises on a cell that is no timestamp).
\<close>

fun first_error :: "(error + 'a) list \<Rightarrow> error + 'a list" where
  "first_error [] = Inr []"
| "first_error (Inl e # xs) = Inl e"
| "first_error (Inr x # xs) = (case first_error xs of Inl e \<Rightarrow> Inl e | Inr ys \<Rightarrow> Inr (x # ys))"

definition month_of_column :: "(cell \<Rightarrow> error + cell) \<Rightarrow> dataframe \<Rightarrow> string \<Rightarrow> error + cell list" where
  "month_of_column dt_month df key =
     (case filter (\<lambda>c. c = key) (columns df) of
        [] \<Rightarrow> Inl KeyError
      | [_] \<Rightarrow> first_error (map (\<lambda>r. dt_month (lookup (columns df) r key)) (rows df))
      | _ \<Rightarrow>
          (case first_error
                  (map dt_month (concat (map (\<lambda>r. map snd (filter (\<lambda>(c, x). c = key) (zip (columns df) r)))
                                          (rows df)))) of
             Inl e \<Rightarrow> Inl e
           | Inr _ \<Rightarrow> Inl AttributeError))"

text \<open>A frame is well formed when every row has one cell per column.\<close>

definition wf_frame :: "dataframe \<Rightarrow> bool" where
  "wf_frame df = list_all (\<lambda>r. length r = length (columns df)) (rows df)"

section \<open>The request and normalization cells of the notebook\<close>

text \<open>
  \<^verbatim>\<open>selected_capitals\<close> is a table with one row per capital: its name and its geometry.
  The request cell builds one request per row, in row order:
  \<^verbatim>\<open>
  for geo_shape in selected_capitals.geometry.values:
      request = SentinelHubStatistical(aggregation=aggregation, input_data=[input_data],
                                       config=config, bbox=BBox(geo_shape.bounds, crs=...))
      requests.append(request)
  \<close>
\<close>

record 'g capital =
  name :: string
  geometry :: 'g

record ('a, 'i, 'b) statistical_request =
  aggregation :: 'a
  input_data :: "'i list"
  bbox :: 'b

definition build_requests ::
  "'a \<Rightarrow> 'i \<Rightarrow> ('g \<Rightarrow> 'b) \<Rightarrow> 'g capital list \<Rightarrow> ('a, 'i, 'b) statistical_request list" where
  "build_requests agg inp BBox selected_capitals =
     map (\<lambda>geo_shape. \<lparr>aggregation = agg, input_data = [inp], bbox = BBox geo_shape\<rparr>)
       (map geometry selected_capitals)"

text \<open>
  Modelled from the spec: the client library's \<^verbatim>\<open>download\<close> call is not in the
  repository, which only calls it
  (\<^verbatim>\<open>client.download(download_requests, max_threads=5, show_progress=True)\<close>).
  The spec's words: the requests are independent, side-effect-free remote reads; the
  result list matches the input list's order, one-to-one; a single request failure is
  not isolated, the whole call fails and nothing is returned. The remote service is the
  function \<open>remote\<close>, which answers a request with a response or fails.
\<close>

fun download :: "('q \<Rightarrow> 'e + 'r) \<Rightarrow> 'q list \<Rightarrow> 'e + 'r list" where
  "download remote [] = Inr []"
| "download remote (q # qs) =
     (case remote q of
        Inl e \<Rightarrow> Inl e
      | Inr r \<Rightarrow> (case download remote qs of Inl e \<Rightarrow> Inl e | Inr rs \<Rightarrow> Inr (r # rs)))"

text \<open>
  A response of the statistics service: the list of time-bucket records under
  \<^verbatim>\<open>"data"\<close>, and a status. The type fixes this shape: a document without the
  key, or with something else than a list of records under it, is no response of the
  service and is left out.
\<close>

record response =
  data :: "pydict list"
  status :: string

text \<open>
  \<^verbatim>\<open>
  no2_dfs = [pd.json_normalize(stats["data"]) for stats in pollution_stats]
  for df, capital in zip(no2_dfs, selected_capitals.name):
      df["name"] = capital
  \<close>
  \<^verbatim>\<open>zip\<close> stops at the shorter of the two: frames past the last name stay untagged.
\<close>

fun tag_frames :: "dataframe list \<Rightarrow> string list \<Rightarrow> dataframe list" where
  "tag_frames (df # dfs) (capital # names) =
     setitem_scalar df ''name'' (Val (JStr capital)) # tag_frames dfs names"
| "tag_frames dfs [] = dfs"
| "tag_frames [] names = []"

definition build_no2_dfs :: "response list \<Rightarrow> string list \<Rightarrow> dataframe list" where
  "build_no2_dfs pollution_stats names =
     tag_frames (map (\<lambda>stats. json_normalize (data stats)) pollution_stats) names"

text \<open>\<^verbatim>\<open>no2_df = pd.concat(no2_dfs, ignore_index=True)\<close>\<close>

definition concat_no2 :: "response list \<Rightarrow> string list \<Rightarrow> error + dataframe" where
  "concat_no2 pollution_stats names = concat_frames (build_no2_dfs pollution_stats names)"

text \<open>
  The rows of the units before the \<open>i\<close>-th: the index at which the rows of the
  \<open>i\<close>-th unit start in a table that holds the units' records one unit after the other.
\<close>

definition row_offset :: "response list \<Rightarrow> nat \<Rightarrow> nat" where
  "row_offset stats i = (\<Sum>r\<leftarrow>take i stats. length (data r))"

text \<open>
  \<^verbatim>\<open>
  stat_cols = [col for col in no2_df.columns if 'stats' in col]
  no2_df[stat_cols] = no2_df[stat_cols].apply(pd.to_numeric, errors="coerce")
  \<close>
\<close>

definition select_stat_cols :: "dataframe \<Rightarrow> string list" where
  "select_stat_cols df = filter (str_contains ''stats'') (columns df)"

definition coerce_stats :: "(string \<Rightarrow> real option) \<Rightarrow> dataframe \<Rightarrow> dataframe" where
  "coerce_stats parse df = apply_columns df (select_stat_cols df) (to_numeric parse)"

text \<open>\<^verbatim>\<open>no2_df = no2_df.rename(columns=lambda x: x.split(".")[-1])\<close>\<close>

definition last_segment :: "string \<Rightarrow> string" where
  "last_segment x = last (split CHR ''.'' x)"

definition rename_last :: "dataframe \<Rightarrow> dataframe" where
  "rename_last df = rename_columns df last_segment"

text \<open>\<^verbatim>\<open>no2_df["month"] = no2_df["from"].astype("datetime64[ns, UTC]").dt.month\<close>\<close>

definition add_month :: "(cell \<Rightarrow> error + cell) \<Rightarrow> dataframe \<Rightarrow> error + dataframe" where
  "add_month dt_month df =
     (case month_of_column dt_month df ''from'' of
        Inl e \<Rightarrow> Inl e
      | Inr months \<Rightarrow> Inr (setitem df ''month'' months))"

text \<open>
  The cell as a whole works on the notebook's variables: it reads
  \<^verbatim>\<open>pollution_stats\<close> and \<^verbatim>\<open>selected_capitals\<close>, assigns \<^verbatim>\<open>no2_dfs\<close>,
  \<^verbatim>\<open>no2_df\<close> and \<^verbatim>\<open>stat_cols\<close>, and writes the table to a file. A variable that
  has not been assigned yet is \<open>None\<close>. When a statement raises, the cell stops there
  and the variables keep what was assigned before: the result is the exception, if any,
  and the variables after the run. The loop variables \<^verbatim>\<open>df\<close> and \<^verbatim>\<open>capital\<close>
  play no part after the loop and are left out.
\<close>

record 'g notebook =
  pollution_stats :: "response list"
  selected_capitals :: "'g capital list"
  no2_dfs :: "dataframe list option"
  no2_df :: "dataframe option"
  stat_cols :: "string list option"
  csv_file :: "dataframe option"

definition normalization_cell ::
  "(string \<Rightarrow> real option) \<Rightarrow> (cell \<Rightarrow> error + cell) \<Rightarrow> 'g notebook \<Rightarrow> error option \<times> 'g notebook" where
  "normalization_cell parse dt_month s =
     (let dfs = build_no2_dfs (pollution_stats s) (map name (selected_capitals s));
          s1 = s\<lparr>no2_dfs := Some dfs\<rparr>
      in case concat_frames dfs of
           Inl e \<Rightarrow> (Some e, s1)
         | Inr df \<Rightarrow>
             (let cols = select_stat_cols df;
                  df2 = rename_last (coerce_stats parse df);
                  s2 = s1\<lparr>no2_df := Some df2, stat_cols := Some cols\<rparr>
              in case add_month dt_month df2 of
                   Inl e \<Rightarrow> (Some e, s2)
                 | Inr df3 \<Rightarrow> (None, s2\<lparr>no2_df := Some df3, csv_file := Some df3\<rparr>)))"

section \<open>The cloud-free mosaic evalscript\<close>

text \<open>
  The notebook sends \<^verbatim>\<open>evalscript_cloudless\<close> to the service, which runs its
  \<^verbatim>\<open>evaluatePixel\<close> once per pixel on the list of acquisitions of that pixel
  (\<^verbatim>\<open>mosaicking: "ORBIT"\<close>). A sample carries the four reflectance bands and the
  scene classification code. JavaScript numbers are modelled as exact reals; the
  non-finite results a division can produce are values of \<open>jsnum\<close>, and
  \<^verbatim>\<open>undefined\<close> (an array read out of range) is \<open>None\<close>.
\<close>

record sample =
  B08 :: real
  B04 :: real
  B03 :: real
  B02 :: real
  SCL :: real

datatype jsnum = Num real | PosInfinity | NegInfinity | JsNaN

text \<open>\<^verbatim>\<open>a / b\<close> on finite operands: a zero divisor gives an infinity or NaN.\<close>

definition js_div :: "real \<Rightarrow> real \<Rightarrow> jsnum" where
  "js_div a b =
     (if b \<noteq> 0 then Num (a / b)
      else if 0 < a then PosInfinity
      else if a < 0 then NegInfinity
      else JsNaN)"

text \<open>\<^verbatim>\<open>v * k\<close> for a finite factor \<open>k\<close>.\<close>

fun js_times :: "jsnum \<Rightarrow> real \<Rightarrow> jsnum" where
  "js_times (Num r) k = Num (r * k)"
| "js_times PosInfinity k = (if 0 < k then PosInfinity else if k < 0 then NegInfinity else JsNaN)"
| "js_times NegInfinity k = (if 0 < k then NegInfinity else if k < 0 then PosInfinity else JsNaN)"
| "js_times JsNaN k = JsNaN"

text \<open>A value read from an array, used as a number: \<^verbatim>\<open>undefined\<close> converts to NaN.\<close>

fun ToNumber :: "real option \<Rightarrow> jsnum" where
  "ToNumber None = JsNaN"
| "ToNumber (Some r) = Num r"

text \<open>
  \<^verbatim>\<open>var index = Math.floor(sortedValues.length / 4); return sortedValues[index];\<close>
\<close>

definition getFirstQuartile :: "real list \<Rightarrow> real option" where
  "getFirstQuartile sortedValues =
     (let index = length sortedValues div 4
      in if index < length sortedValues then Some (sortedValues ! index) else None)"

text \<open>\<^verbatim>\<open>values.sort((a,b) => a-b); return getFirstQuartile(values);\<close>\<close>

definition getFirstQuartileValue :: "real list \<Rightarrow> real option" where
  "getFirstQuartileValue values = getFirstQuartile (sort values)"

text \<open>\<^verbatim>\<open>return !invalid.includes(sample.SCL)\<close> with the seven invalid codes.\<close>

definition invalid :: "real list" where
  "invalid = [0, 1, 3, 7, 8, 9, 10]"

definition validate :: "sample \<Rightarrow> bool" where
  "validate s = (SCL s \<notin> set invalid)"

text \<open>
  \<^verbatim>\<open>let ndvi = ((cloudless.b08 - cloudless.b04) / (cloudless.b08 + cloudless.b04))\<close>:
  arithmetic on \<^verbatim>\<open>undefined\<close> gives NaN.
\<close>

definition ndvi_of :: "real option \<Rightarrow> real option \<Rightarrow> jsnum" where
  "ndvi_of b08 b04 =
     (case (b08, b04) of
        (Some x, Some y) \<Rightarrow> js_div (x - y) (x + y)
      | _ \<Rightarrow> JsNaN)"

definition evaluatePixel :: "sample list \<Rightarrow> jsnum list" where
  "evaluatePixel samples =
     (let valid = filter validate samples
      in if 0 < length valid then
           (let b08 = getFirstQuartileValue (map B08 valid);
                b04 = getFirstQuartileValue (map B04 valid);
                b03 = getFirstQuartileValue (map B03 valid);
                b02 = getFirstQuartileValue (map B02 valid);
                ndvi = ndvi_of b08 b04
            in map (\<lambda>v. js_times v 10000) [ToNumber b04, ToNumber b03, ToNumber b02, ndvi])
         else [Num (- 32768), Num (- 32768), Num (- 32768), Num (- 32768)])"

section \<open>The forest mask and its year-over-year change\<close>

text \<open>
  \<^verbatim>\<open>ds_s2\<close> is an xarray dataset over the coordinates year, y and x. A data variable
  is modelled as the list of its yearly rasters, each with its year label and its pixels
  in a fixed order. A pixel is a float, \<open>None\<close> standing for NaN.
\<close>

type_synonym 'a data_array = "(int \<times> 'a list) list"

text \<open>\<^verbatim>\<open>arr > t\<close>, element by element; a comparison with NaN is false.\<close>

definition gt :: "real option data_array \<Rightarrow> real \<Rightarrow> bool data_array" where
  "gt arr t = map (\<lambda>(year, px). (year, map (\<lambda>v. case v of None \<Rightarrow> False | Some r \<Rightarrow> t < r) px)) arr"

text \<open>\<^verbatim>\<open>.astype(int)\<close> on a boolean array.\<close>

definition astype_int :: "bool data_array \<Rightarrow> int data_array" where
  "astype_int arr = map (\<lambda>(year, px). (year, map (\<lambda>b. if b then 1 else 0) px)) arr"

text \<open>
  \<^verbatim>\<open>.diff("year", label="upper")\<close>: each raster minus the one before it, under the
  later year's label; the first year has no difference.
\<close>

definition diff_year :: "int data_array \<Rightarrow> int data_array" where
  "diff_year arr =
     map (\<lambda>((year, cur), (_, prev)). (year, map (\<lambda>(c, p). c - p) (zip cur prev)))
       (zip (tl arr) arr)"

text \<open>\<^verbatim>\<open>ds_s2["FOREST"] = ds_s2.NDVI > 0.7\<close>\<close>

definition FOREST :: "real option data_array \<Rightarrow> bool data_array" where
  "FOREST NDVI = gt NDVI 0.7"

text \<open>
  \<^verbatim>\<open>ds_s2["CHANGE"] = ds_s2.FOREST.astype(int).diff("year", label="upper")\<close>.
  The right-hand side is the array of differences, which has no raster for the first
  year.
\<close>

definition forest_diff :: "real option data_array \<Rightarrow> int data_array" where
  "forest_diff NDVI = diff_year (astype_int (FOREST NDVI))"

text \<open>
  Storing an array in the dataset (\<^verbatim>\<open>ds[name] = arr\<close>) aligns it to the dataset's
  year index, by label: a year of the dataset for which the array has no raster gets NaN
  in every pixel, and the integers become floats to make room for NaN. The year labels
  of a dataset are distinct. \<open>ds\<close> is a variable the dataset already holds; it gives
  the years and the size of the rasters.
\<close>

definition setitem_aligned :: "'a data_array \<Rightarrow> int data_array \<Rightarrow> real option data_array" where
  "setitem_aligned ds arr =
     map (\<lambda>(year, px).
            (year, case map_of arr year of
                     None \<Rightarrow> replicate (length px) None
                   | Some vals \<Rightarrow> map (\<lambda>v. Some (real_of_int v)) vals))
       ds"

text \<open>
  The variable \<^verbatim>\<open>ds_s2.CHANGE\<close> as the dataset holds it, and as the later cells
  read it (\<^verbatim>\<open>ds_s2.CHANGE.sel(year=plot_year)\<close>, \<^verbatim>\<open>ds_s2.CHANGE == -1\<close>).
\<close>

definition CHANGE :: "real option data_array \<Rightarrow> real option data_array" where
  "CHANGE NDVI = setitem_aligned NDVI (forest_diff NDVI)"

text \<open>The forest mask of one pixel as an integer: 1 for an NDVI above 0.7, else 0.\<close>

definition forest_bit :: "real option \<Rightarrow> int" where
  "forest_bit v = (if (case v of None \<Rightarrow> False | Some r \<Rightarrow> 0.7 < r) then 1 else 0)"

section \<open>Example inputs\<close>

text \<open>
  Five acquisitions of one pixel, the second one cloudy (class 9), and a pixel whose
  only acquisition is cloudy.
\<close>

definition samples_example :: "sample list" where
  "samples_example =
     [\<lparr>B08 = 0.5, B04 = 0.1, B03 = 0.2, B02 = 0.3, SCL = 4\<rparr>,
      \<lparr>B08 = 0.9, B04 = 0.8, B03 = 0.7, B02 = 0.6, SCL = 9\<rparr>,
      \<lparr>B08 = 0.3, B04 = 0.2, B03 = 0.4, B02 = 0.1, SCL = 5\<rparr>,
      \<lparr>B08 = 0.4, B04 = 0.4, B03 = 0.1, B02 = 0.2, SCL = 4\<rparr>,
      \<lparr>B08 = 0.6, B04 = 0.3, B03 = 0.3, B02 = 0.5, SCL = 6\<rparr>]"

definition cloudy_example :: "sample list" where
  "cloudy_example = [\<lparr>B08 = 0.9, B04 = 0.8, B03 = 0.7, B02 = 0.6, SCL = 9\<rparr>]"

text \<open>The NDVI of three pixels in two years; the third pixel has no value in 2018.\<close>

definition NDVI_example :: "real option data_array" where
  "NDVI_example =
     [(2018, [Some 0.8, Some 0.1, None]),
      (2019, [Some 0.2, Some 0.9, Some 0.7])]"

text \<open>
  Two responses of the statistics service, for Amsterdam (two time buckets) and Berlin
  (one). The service sends a mean it could not compute as the string NaN, and here one
  mean as a numeric string.
\<close>

definition bucket :: "string \<Rightarrow> string \<Rightarrow> json \<Rightarrow> pydict" where
  "bucket t0 t1 mean =
     [(''interval'', JObj [(''from'', JStr t0), (''to'', JStr t1)]),
      (''outputs'', JObj [(''default'', JObj [(''bands'', JObj [(''NO2'', JObj [(''stats'',
          JObj [(''mean'', mean), (''sampleCount'', JNum 1)])])])])])]"

definition stats_example :: "response list" where
  "stats_example =
     [\<lparr>data = [bucket ''2022-01-01T00:00:00Z'' ''2022-01-03T00:00:00Z'' (JNum 2),
               bucket ''2022-01-03T00:00:00Z'' ''2022-01-05T00:00:00Z'' (JStr ''NaN'')],
       status = ''OK''\<rparr>,
      \<lparr>data = [bucket ''2022-01-01T00:00:00Z'' ''2022-01-03T00:00:00Z'' (JStr ''3.5'')],
       status = ''OK''\<rparr>]"

definition names_example :: "string list" where
  "names_example = [''Amsterdam'', ''Berlin'']"

definition table_example :: dataframe where
  "table_example =
     \<lparr>columns = [''interval.from'', ''interval.to'', ''outputs.default.bands.NO2.stats.mean'',
                 ''outputs.default.bands.NO2.stats.sampleCount'', ''name''],
      rows = [[Val (JStr ''2022-01-01T00:00:00Z''), Val (JStr ''2022-01-03T00:00:00Z''),
               Val (JNum 2), Val (JNum 1), Val (JStr ''Amsterdam'')],
              [Val (JStr ''2022-01-03T00:00:00Z''), Val (JStr ''2022-01-05T00:00:00Z''),
               Val (JStr ''NaN''), Val (JNum 1), Val (JStr ''Amsterdam'')],
              [Val (JStr ''2022-01-01T00:00:00Z''), Val (JStr ''2022-01-03T00:00:00Z''),
               Val (JStr ''3.5''), Val (JNum 1), Val (JStr ''Berlin'')]]\<rparr>"

text \<open>
  The table the two responses give once concatenated is \<open>table_example\<close>; the table at the
  end of the cell is \<open>finished_example\<close>, for a parser that reads only the string 3.5 as a
  number and a timestamp conversion that knows January 2022.
\<close>

definition finished_example :: dataframe where
  "finished_example =
     \<lparr>columns = [''from'', ''to'', ''mean'', ''sampleCount'', ''name'', ''month''],
      rows = [[Val (JStr ''2022-01-01T00:00:00Z''), Val (JStr ''2022-01-03T00:00:00Z''),
               Val (JNum 2), Val (JNum 1), Val (JStr ''Amsterdam''), Val (JNum 1)],
              [Val (JStr ''2022-01-03T00:00:00Z''), Val (JStr ''2022-01-05T00:00:00Z''),
               NaN, Val (JNum 1), Val (JStr ''Amsterdam''), Val (JNum 1)],
              [Val (JStr ''2022-01-01T00:00:00Z''), Val (JStr ''2022-01-03T00:00:00Z''),
               Val (JNum 3.5), Val (JNum 1), Val (JStr ''Berlin''), Val (JNum 1)]]\<rparr>"

definition parse_example :: "string \<Rightarrow> real option" where
  "parse_example s = (if s = ''3.5'' then Some 3.5 else None)"

definition dt_month_example :: "cell \<Rightarrow> error + cell" where
  "dt_month_example x =
     (case x of
        NaN \<Rightarrow> Inr NaN
      | Val (JStr s) \<Rightarrow> (if startswith s ''2022-01-'' then Inr (Val (JNum 1)) else Inl ValueError)
      | Val _ \<Rightarrow> Inl ValueError)"

text \<open>The two capitals, a notebook before the cell has run, and one with stale variables.\<close>

definition selected_example :: "unit capital list" where
  "selected_example = [\<lparr>name = ''Amsterdam'', geometry = ()\<rparr>, \<lparr>name = ''Berlin'', geometry = ()\<rparr>]"

definition notebook_example :: "unit notebook" where
  "notebook_example =
     \<lparr>pollution_stats = stats_example, selected_capitals = selected_example,
      no2_dfs = None, no2_df = None, stat_cols = None, csv_file = None\<rparr>"

definition rerun_example :: "unit notebook" where
  "rerun_example =
     \<lparr>pollution_stats = stats_example, selected_capitals = selected_example,
      no2_dfs = Some [], no2_df = Some table_example, stat_cols = Some [''mean''],
      csv_file = None\<rparr>"

text \<open>A remote service that fails on request 13 and answers every other request.\<close>

definition remote_example :: "nat \<Rightarrow> string + nat" where
  "remote_example q = (if q = 13 then Inl ''timeout'' else Inr (q * q))"

section \<open>Properties of the normalization\<close>

subsection \<open>Substrings\<close>

text \<open>\<open>str_contains sub s\<close> is Python's \<^verbatim>\<open>sub in s\<close>: \<open>sub\<close> occurs in \<open>s\<close>.\<close>

lemma startswith_iff: "startswith s p \<longleftrightarrow> (\<exists>q. s = p @ q)"
  by (induction s p rule: startswith.induct) auto

lemma str_contains_iff: "str_contains sub s \<longleftrightarrow> (\<exists>p q. s = p @ sub @ q)"
proof (induction s)
  case Nil
  then show ?case by auto
next
  case (Cons c cs)
  show ?case
  proof
    assume "str_contains sub (c # cs)"
    then consider "startswith (c # cs) sub" | "str_contains sub cs" by auto
    then show "\<exists>p q. c # cs = p @ sub @ q"
    proof cases
      case 1
      then obtain q where "c # cs = sub @ q" by (auto simp: startswith_iff)
      then have "c # cs = [] @ sub @ q" by simp
      then show ?thesis by blast
    next
      case 2
      with Cons.IH obtain p q where "cs = p @ sub @ q" by blast
      then have "c # cs = (c # p) @ sub @ q" by simp
      then show ?thesis by blast
    qed
  next
    assume "\<exists>p q. c # cs = p @ sub @ q"
    then obtain p q where pq: "c # cs = p @ sub @ q" by blast
    show "str_contains sub (c # cs)"
    proof (cases p)
      case Nil
      with pq have "startswith (c # cs) sub" by (auto simp: startswith_iff)
      then show ?thesis by simp
    next
      case (Cons a p')
      with pq have "cs = p' @ sub @ q" by simp
      with Cons.IH have "str_contains sub cs" by blast
      then show ?thesis by simp
    qed
  qed
qed

subsection \<open>Labels\<close>

lemma set_add_labels: "set (add_labels cols ks) = set cols \<union> set ks"
  unfolding add_labels_def by (induction ks arbitrary: cols) auto

lemma set_union_labels_aux:
  "set (fold (\<lambda>ks cols. add_labels cols ks) kss cols) = set cols \<union> \<Union> (set ` set kss)"
  by (induction kss arbitrary: cols) (auto simp: set_add_labels)

lemma set_union_labels: "set (union_labels kss) = \<Union> (set ` set kss)"
  by (simp add: union_labels_def set_union_labels_aux)

subsection \<open>Reading a cell by its label\<close>

lemma lookup_map: "lookup cols (map g cols) c = (if c \<in> set cols then g c else NaN)"
  by (simp add: lookup_def map_of_zip_map)

lemma lookup_absent: "c \<notin> set cols \<Longrightarrow> lookup cols r c = NaN"
proof -
  assume "c \<notin> set cols"
  then have "map_of (zip cols r) c = None"
    by (auto simp: map_of_eq_None_iff dest: set_zip_leftD)
  then show ?thesis by (simp add: lookup_def)
qed

lemma lookup_overwrite:
  "length r = length cols \<Longrightarrow>
   lookup cols (map (\<lambda>(c, x). if c = key then v else x) (zip cols r)) c =
     (if c = key \<and> key \<in> set cols then v else lookup cols r c)"
proof (induction r cols rule: list_induct2)
  case Nil
  then show ?case by (simp add: lookup_def)
next
  case (Cons x xs y ys)
  then show ?case by (auto simp: lookup_def)
qed

lemma lookup_append:
  "length r = length cols \<Longrightarrow> key \<notin> set cols \<Longrightarrow>
   lookup (cols @ [key]) (r @ [v]) c = (if c = key then v else lookup cols r c)"
proof (induction r cols rule: list_induct2)
  case Nil
  then show ?case by (simp add: lookup_def)
next
  case (Cons x xs y ys)
  then show ?case by (auto simp: lookup_def)
qed

subsection \<open>Well-formed frames\<close>

lemma wf_DataFrame: "wf_frame (DataFrame ds)"
  by (simp add: wf_frame_def DataFrame_def Let_def list_all_iff)

lemma wf_json_normalize: "wf_frame (json_normalize ds)"
  using wf_DataFrame by (simp add: json_normalize_def wf_frame_def)

lemma length_rows_json_normalize: "length (rows (json_normalize ds)) = length ds"
  by (simp add: json_normalize_def DataFrame_def Let_def)

lemma length_rows_setitem_scalar: "length (rows (setitem_scalar df key v)) = length (rows df)"
  by (simp add: setitem_scalar_def setitem_def)

lemma nth_rows_setitem_scalar:
  "j < length (rows df) \<Longrightarrow>
   rows (setitem_scalar df key v) ! j =
     (if key \<in> set (columns df)
      then map (\<lambda>(c, x). if c = key then v else x) (zip (columns df) (rows df ! j))
      else rows df ! j @ [v])"
  by (simp add: setitem_scalar_def setitem_def)

lemma columns_setitem_scalar:
  "columns (setitem_scalar df key v) =
     (if key \<in> set (columns df) then columns df else columns df @ [key])"
  by (simp add: setitem_scalar_def setitem_def)

lemma wf_setitem_scalar: "wf_frame df \<Longrightarrow> wf_frame (setitem_scalar df key v)"
  by (auto simp: wf_frame_def setitem_scalar_def setitem_def list_all_iff dest!: set_zip_leftD)

lemma lookup_setitem_scalar:
  assumes "wf_frame df" and "j < length (rows df)"
  shows "lookup (columns (setitem_scalar df key v)) (rows (setitem_scalar df key v) ! j) c =
           (if c = key then v else lookup (columns df) (rows df ! j) c)"
proof -
  from assms have len: "length (rows df ! j) = length (columns df)"
    by (simp add: wf_frame_def list_all_length)
  show ?thesis
    using assms(2) len
    by (auto simp: nth_rows_setitem_scalar columns_setitem_scalar lookup_overwrite lookup_append)
qed

subsection \<open>json_normalize\<close>

lemma lookup_DataFrame:
  assumes "j < length ds"
  shows "lookup (columns (DataFrame ds)) (rows (DataFrame ds) ! j) c =
           (case map_of (ds ! j) c of None \<Rightarrow> NaN | Some v \<Rightarrow> Val v)"
proof (cases "c \<in> set (columns (DataFrame ds))")
  case True
  with assms show ?thesis
    by (simp add: DataFrame_def Let_def lookup_map)
next
  case False
  with assms have "c \<notin> set (map fst (ds ! j))"
    by (auto simp: DataFrame_def Let_def set_union_labels)
  then have "map_of (ds ! j) c = None"
    by (simp add: map_of_eq_None_iff)
  with False show ?thesis by (simp add: lookup_absent)
qed

lemma lookup_json_normalize:
  assumes "j < length ds"
  shows "lookup (columns (json_normalize ds)) (rows (json_normalize ds) ! j) c =
           (case map_of (normalise_json_ordered (ds ! j)) c of None \<Rightarrow> NaN | Some v \<Rightarrow> Val v)"
  using assms lookup_DataFrame [of j "map normalise_json_ordered ds" c]
  by (auto simp: json_normalize_def)

subsection \<open>Tagging\<close>

lemma length_tag_frames: "length (tag_frames dfs names) = length dfs"
  by (induction dfs names rule: tag_frames.induct) simp_all

lemma nth_tag_frames:
  "i < length dfs \<Longrightarrow>
   tag_frames dfs names ! i =
     (if i < length names then setitem_scalar (dfs ! i) ''name'' (Val (JStr (names ! i))) else dfs ! i)"
  by (induction dfs names arbitrary: i rule: tag_frames.induct)
     (auto simp: nth_Cons split: nat.splits)

lemma length_build_no2_dfs: "length (build_no2_dfs stats names) = length stats"
  by (simp add: build_no2_dfs_def length_tag_frames)

lemma nth_build_no2_dfs:
  "i < length stats \<Longrightarrow>
   build_no2_dfs stats names ! i =
     (if i < length names
      then setitem_scalar (json_normalize (data (stats ! i))) ''name'' (Val (JStr (names ! i)))
      else json_normalize (data (stats ! i)))"
  by (simp add: build_no2_dfs_def nth_tag_frames)

lemma length_rows_build_no2_dfs:
  "i < length stats \<Longrightarrow> length (rows (build_no2_dfs stats names ! i)) = length (data (stats ! i))"
  by (simp add: nth_build_no2_dfs length_rows_setitem_scalar length_rows_json_normalize)

lemma map_length_rows_build_no2_dfs:
  "map (\<lambda>df. length (rows df)) (build_no2_dfs stats names) = map (\<lambda>r. length (data r)) stats"
  by (rule nth_equalityI) (simp_all add: length_build_no2_dfs length_rows_build_no2_dfs)

lemma wf_build_no2_dfs: "i < length stats \<Longrightarrow> wf_frame (build_no2_dfs stats names ! i)"
  by (simp add: nth_build_no2_dfs wf_setitem_scalar wf_json_normalize)

lemma lookup_build_no2_dfs:
  assumes "i < length stats" and "j < length (data (stats ! i))"
  shows "lookup (columns (build_no2_dfs stats names ! i)) (rows (build_no2_dfs stats names ! i) ! j) c =
           (if c = ''name'' \<and> i < length names then Val (JStr (names ! i))
            else (case map_of (normalise_json_ordered (data (stats ! i) ! j)) c of
                    None \<Rightarrow> NaN | Some v \<Rightarrow> Val v))"
  using assms
  by (simp add: nth_build_no2_dfs lookup_setitem_scalar wf_json_normalize
      length_rows_json_normalize lookup_json_normalize)

subsection \<open>Concatenation\<close>

lemma nth_concat_offset:
  "i < length xss \<Longrightarrow> j < length (xss ! i) \<Longrightarrow>
   concat xss ! (sum_list (map length (take i xss)) + j) = xss ! i ! j"
proof (induction xss arbitrary: i)
  case Nil
  then show ?case by simp
next
  case (Cons xs xss)
  then show ?case
    by (cases i) (simp_all add: nth_append add.assoc)
qed

lemma index_in_concat:
  "k < length (concat xss) \<Longrightarrow>
   \<exists>i j. i < length xss \<and> j < length (xss ! i) \<and> k = sum_list (map length (take i xss)) + j"
proof (induction xss arbitrary: k)
  case Nil
  then show ?case by simp
next
  case (Cons xs xss)
  show ?case
  proof (cases "k < length xs")
    case True
    then have "0 < length (xs # xss) \<and> k < length ((xs # xss) ! 0)
               \<and> k = sum_list (map length (take 0 (xs # xss))) + k"
      by simp
    then show ?thesis by blast
  next
    case False
    with Cons.prems have "k - length xs < length (concat xss)" by simp
    from Cons.IH [OF this] obtain i j where
      ij: "i < length xss" "j < length (xss ! i)"
          "k - length xs = sum_list (map length (take i xss)) + j"
      by blast
    with False have "Suc i < length (xs # xss) \<and> j < length ((xs # xss) ! Suc i)
               \<and> k = sum_list (map length (take (Suc i) (xs # xss))) + j"
      by simp
    then show ?thesis by blast
  qed
qed

lemma concat_frames_Inr:
  "concat_frames objs = Inr T \<Longrightarrow>
   objs \<noteq> [] \<and> columns T = union_labels (map columns objs) \<and>
   rows T = concat (map (\<lambda>df. map (\<lambda>r. map (lookup (columns df) r) (columns T)) (rows df)) objs)"
  by (auto simp: concat_frames_def Let_def split: if_splits)

lemma length_rows_concat_frames:
  "concat_frames objs = Inr T \<Longrightarrow> length (rows T) = sum_list (map (\<lambda>df. length (rows df)) objs)"
  by (drule concat_frames_Inr) (simp add: length_concat comp_def)

lemma wf_concat_frames: "concat_frames objs = Inr T \<Longrightarrow> wf_frame T"
  by (drule concat_frames_Inr) (simp add: wf_frame_def list_all_iff)

lemma nth_rows_concat_frames:
  assumes T: "concat_frames objs = Inr T" and i: "i < length objs" and j: "j < length (rows (objs ! i))"
  shows "rows T ! (sum_list (map (\<lambda>df. length (rows df)) (take i objs)) + j) =
           map (lookup (columns (objs ! i)) (rows (objs ! i) ! j)) (columns T)"
proof -
  let ?xss = "map (\<lambda>df. map (\<lambda>r. map (lookup (columns df) r) (columns T)) (rows df)) objs"
  from concat_frames_Inr [OF T] have rows: "rows T = concat ?xss" by simp
  have len: "map length (take i ?xss) = map (\<lambda>df. length (rows df)) (take i objs)"
    by (simp add: take_map)
  from i j have "concat ?xss ! (sum_list (map length (take i ?xss)) + j) = ?xss ! i ! j"
    by (intro nth_concat_offset) simp_all
  with i j show ?thesis
    unfolding rows len by simp
qed

lemma lookup_concat_frames:
  assumes T: "concat_frames objs = Inr T" and i: "i < length objs" and j: "j < length (rows (objs ! i))"
  shows "lookup (columns T) (rows T ! (sum_list (map (\<lambda>df. length (rows df)) (take i objs)) + j)) c =
           lookup (columns (objs ! i)) (rows (objs ! i) ! j) c"
proof (cases "c \<in> set (columns T)")
  case True
  then show ?thesis
    by (simp add: nth_rows_concat_frames [OF T i j] lookup_map)
next
  case False
  with concat_frames_Inr [OF T] i have "c \<notin> set (columns (objs ! i))"
    by (auto simp: set_union_labels)
  with False show ?thesis
    by (simp add: nth_rows_concat_frames [OF T i j] lookup_map lookup_absent)
qed

lemma concat_no2_example: "concat_no2 stats_example names_example = Inr table_example"
  by code_simp

lemma sum_list_take_Suc:
  "i < length xs \<Longrightarrow> sum_list (map f (take (Suc i) xs)) = sum_list (map f (take i xs)) + (f (xs ! i) :: nat)"
  by (simp add: take_Suc_conv_app_nth)

lemma sum_list_take_le:
  "sum_list (map f (take i xs)) \<le> (sum_list (map f xs) :: nat)"
proof -
  have "sum_list (map f xs) = sum_list (map f (take i xs)) + sum_list (map f (drop i xs))"
    by (metis append_take_drop_id map_append sum_list_append)
  then show ?thesis by simp
qed

lemma concat_no2_Inr:
  "concat_no2 stats names = Inr T \<longleftrightarrow> concat_frames (build_no2_dfs stats names) = Inr T"
  by (simp add: concat_no2_def)

lemma length_rows_concat_no2:
  "concat_no2 stats names = Inr T \<Longrightarrow> length (rows T) = (\<Sum>r\<leftarrow>stats. length (data r))"
  by (simp add: concat_no2_def length_rows_concat_frames map_length_rows_build_no2_dfs)

lemma lookup_concat_no2:
  assumes T: "concat_no2 stats names = Inr T"
    and i: "i < length stats" and j: "j < length (data (stats ! i))"
  shows "lookup (columns T) (rows T ! ((\<Sum>r\<leftarrow>take i stats. length (data r)) + j)) c =
           (if c = ''name'' \<and> i < length names then Val (JStr (names ! i))
            else (case map_of (normalise_json_ordered (data (stats ! i) ! j)) c of
                    None \<Rightarrow> NaN | Some v \<Rightarrow> Val v))"
proof -
  let ?dfs = "build_no2_dfs stats names"
  from T have T': "concat_frames ?dfs = Inr T" by (simp add: concat_no2_def)
  from i have i': "i < length ?dfs" by (simp add: length_build_no2_dfs)
  from i j have j': "j < length (rows (?dfs ! i))" by (simp add: length_rows_build_no2_dfs)
  have off: "(\<Sum>df\<leftarrow>take i ?dfs. length (rows df)) = (\<Sum>r\<leftarrow>take i stats. length (data r))"
    using map_length_rows_build_no2_dfs [of stats names]
    by (metis take_map)
  show ?thesis
    using lookup_concat_frames [OF T' i' j', of c] lookup_build_no2_dfs [OF i j, of names c]
    by (simp add: off)
qed

subsection \<open>The number of rows\<close>

text \<open>
  Claim C1, as amended. For every non-empty list of responses, flattening, tagging and
  concatenating produces a table, and its number of rows is the sum, over the spatial
  units, of the number of time-bucket records of the unit's response.
\<close>

theorem concat_no2_row_count:
  "stats \<noteq> [] \<Longrightarrow>
   \<exists>T. concat_no2 stats names = Inr T \<and> length (rows T) = (\<Sum>r\<leftarrow>stats. length (data r))"
proof -
  assume "stats \<noteq> []"
  then have "build_no2_dfs stats names \<noteq> []"
    using length_build_no2_dfs [of stats names] by auto
  then obtain T where T: "concat_no2 stats names = Inr T"
    by (auto simp: concat_no2_def concat_frames_def Let_def)
  with length_rows_concat_no2 [OF T] show ?thesis by blast
qed

text \<open>
  As stated for every list of responses the claim fails: with no response at all
  \<^verbatim>\<open>pd.concat\<close> raises \<^verbatim>\<open>ValueError\<close>, and no table is produced.
\<close>

theorem concat_no2_no_responses:
  "concat_no2 [] [] = Inl ValueError"
  by (simp add: concat_no2_def build_no2_dfs_def concat_frames_def)

theorem concat_no2_row_count_witness:
  "stats_example \<noteq> [] \<and>
   (\<exists>T. concat_no2 stats_example names_example = Inr T \<and> length (rows T) = 3)"
proof -
  have ne: "stats_example \<noteq> []"
    by (simp add: stats_example_def)
  have n: "(\<Sum>r\<leftarrow>stats_example. length (data r)) = 3"
    by (simp add: stats_example_def)
  from concat_no2_row_count [OF ne, of names_example] ne show ?thesis
    unfolding n by simp
qed

subsection \<open>Distinct labels\<close>

lemma distinct_add_labels: "distinct cols \<Longrightarrow> distinct (add_labels cols ks)"
  unfolding add_labels_def by (induction ks arbitrary: cols) auto

lemma distinct_union_labels_aux:
  "distinct cols \<Longrightarrow> distinct (fold (\<lambda>ks cols. add_labels cols ks) kss cols)"
  by (induction kss arbitrary: cols) (auto simp: distinct_add_labels)

lemma distinct_union_labels: "distinct (union_labels kss)"
  by (simp add: union_labels_def distinct_union_labels_aux)

lemma distinct_columns_concat_no2: "concat_no2 stats names = Inr T \<Longrightarrow> distinct (columns T)"
  by (auto simp: concat_no2_def dest!: concat_frames_Inr simp: distinct_union_labels)

subsection \<open>The steps after the concatenation\<close>

lemma in_select_stat_cols:
  "c \<in> set (select_stat_cols df) \<longleftrightarrow> c \<in> set (columns df) \<and> str_contains ''stats'' c"
  by (auto simp: select_stat_cols_def)

lemma columns_coerce_stats: "columns (coerce_stats parse df) = columns df"
  by (simp add: coerce_stats_def apply_columns_def)

lemma length_rows_coerce_stats: "length (rows (coerce_stats parse df)) = length (rows df)"
  by (simp add: coerce_stats_def apply_columns_def)

lemma nth_rows_coerce_stats:
  assumes "k < length (rows df)" and "length (rows df ! k) = length (columns df)"
    and "p < length (columns df)"
  shows "rows (coerce_stats parse df) ! k ! p =
           (if str_contains ''stats'' (columns df ! p) then to_numeric parse (rows df ! k ! p)
            else rows df ! k ! p)"
  using assms by (simp add: coerce_stats_def apply_columns_def in_select_stat_cols)

lemma length_nth_rows_coerce_stats:
  "k < length (rows df) \<Longrightarrow> length (rows (coerce_stats parse df) ! k) = min (length (columns df)) (length (rows df ! k))"
  by (simp add: coerce_stats_def apply_columns_def)

lemma wf_coerce_stats: "wf_frame df \<Longrightarrow> wf_frame (coerce_stats parse df)"
  by (auto simp: wf_frame_def coerce_stats_def apply_columns_def list_all_iff)

lemma columns_rename_last: "columns (rename_last df) = map last_segment (columns df)"
  by (simp add: rename_last_def rename_columns_def)

lemma rows_rename_last: "rows (rename_last df) = rows df"
  by (simp add: rename_last_def rename_columns_def)

lemma wf_rename_last: "wf_frame df \<Longrightarrow> wf_frame (rename_last df)"
  by (simp add: wf_frame_def columns_rename_last rows_rename_last)

lemma first_error_Inr:
  "first_error xs = Inr ys \<Longrightarrow> length ys = length xs"
  by (induction xs arbitrary: ys rule: first_error.induct) (auto split: sum.splits)

lemma month_of_column_length:
  "month_of_column dt_month df key = Inr months \<Longrightarrow> length months = length (rows df)"
  by (auto simp: month_of_column_def split: list.splits sum.splits dest: first_error_Inr)

lemma rows_setitem:
  assumes "length vals = length (rows df)" and "k < length (rows df)"
    and "length (rows df ! k) = length (columns df)" and "p < length (columns df)"
  shows "length (rows (setitem df key vals)) = length (rows df)"
    and "rows (setitem df key vals) ! k ! p = (if columns df ! p = key then vals ! k else rows df ! k ! p)"
  using assms by (auto simp: setitem_def nth_append)

lemma add_month_rows:
  assumes F: "add_month dt_month df = Inr F"
  shows "length (rows F) = length (rows df)"
    and "k < length (rows df) \<Longrightarrow> length (rows df ! k) = length (columns df) \<Longrightarrow>
         p < length (columns df) \<Longrightarrow> columns df ! p \<noteq> ''month'' \<Longrightarrow>
         rows F ! k ! p = rows df ! k ! p"
proof -
  from F obtain months where m: "month_of_column dt_month df ''from'' = Inr months"
    and Feq: "F = setitem df ''month'' months"
    by (auto simp: add_month_def split: sum.splits)
  from month_of_column_length [OF m] have len: "length months = length (rows df)" .
  show "length (rows F) = length (rows df)"
    using len by (simp add: Feq setitem_def)
  show "k < length (rows df) \<Longrightarrow> length (rows df ! k) = length (columns df) \<Longrightarrow>
         p < length (columns df) \<Longrightarrow> columns df ! p \<noteq> ''month'' \<Longrightarrow>
         rows F ! k ! p = rows df ! k ! p"
    using len by (simp add: Feq rows_setitem(2))
qed

lemma finished_table_rows:
  assumes T: "wf_frame T"
    and F: "add_month dt_month (rename_last (coerce_stats parse T)) = Inr F"
  shows "length (rows F) = length (rows T)"
    and "k < length (rows T) \<Longrightarrow> p < length (columns T) \<Longrightarrow>
         last_segment (columns T ! p) \<noteq> ''month'' \<Longrightarrow>
         rows F ! k ! p =
           (if str_contains ''stats'' (columns T ! p) then to_numeric parse (rows T ! k ! p)
            else rows T ! k ! p)"
proof -
  let ?df = "rename_last (coerce_stats parse T)"
  show "length (rows F) = length (rows T)"
    using add_month_rows(1) [OF F] by (simp add: rows_rename_last length_rows_coerce_stats)
  assume k: "k < length (rows T)" and p: "p < length (columns T)"
    and nm: "last_segment (columns T ! p) \<noteq> ''month''"
  from T k have len: "length (rows T ! k) = length (columns T)"
    by (simp add: wf_frame_def list_all_length)
  have "rows F ! k ! p = rows ?df ! k ! p"
    using k p nm len
    by (intro add_month_rows(2) [OF F])
       (simp_all add: rows_rename_last columns_rename_last length_rows_coerce_stats
          length_nth_rows_coerce_stats columns_coerce_stats)
  also have "\<dots> = (if str_contains ''stats'' (columns T ! p) then to_numeric parse (rows T ! k ! p)
            else rows T ! k ! p)"
    using k p len by (simp add: rows_rename_last nth_rows_coerce_stats)
  finally show "rows F ! k ! p =
           (if str_contains ''stats'' (columns T ! p) then to_numeric parse (rows T ! k ! p)
            else rows T ! k ! p)" .
qed

lemma finished_table_example:
  "add_month dt_month_example (rename_last (coerce_stats parse_example table_example))
     = Inr finished_example"
  by code_simp

lemma normalization_cell_example:
  "fst (normalization_cell parse_example dt_month_example notebook_example) = None"
  "no2_df (snd (normalization_cell parse_example dt_month_example notebook_example)) = Some finished_example"
  "csv_file (snd (normalization_cell parse_example dt_month_example notebook_example)) = Some finished_example"
  by code_simp+

subsection \<open>Row order\<close>

lemma row_offset_Suc:
  "i < length stats \<Longrightarrow> row_offset stats (Suc i) = row_offset stats i + length (data (stats ! i))"
  by (simp add: row_offset_def sum_list_take_Suc)

lemma row_offset_le:
  "concat_no2 stats names = Inr T \<Longrightarrow> row_offset stats i \<le> length (rows T)"
  by (simp add: length_rows_concat_no2 row_offset_def sum_list_take_le)

text \<open>
  Claim C3. When the concatenation gives the table \<open>T\<close>: its labels are distinct; the
  \<open>j\<close>-th record of the \<open>i\<close>-th response is the row at index
  \<open>row_offset stats i + j\<close>, which lies before the rows of the next unit start, and
  under every label but the unit's name that row holds the record's flattened value, or
  NaN where the record has none. The rows of one unit keep the order of its records, and
  the units follow each other in input order. The later steps keep every row at its
  index: the finished table \<open>F\<close> has as many rows as \<open>T\<close>, and outside a column
  renamed to month each of its cells is the cell of \<open>T\<close> at the same row and column,
  coerced when the column is a statistic. Nothing is sorted and no row is dropped.
\<close>

theorem rows_follow_input_order:
  assumes T: "concat_no2 stats names = Inr T"
  shows "distinct (columns T)
       \<and> (i < length stats \<and> j < length (data (stats ! i)) \<longrightarrow>
            row_offset stats i + j < row_offset stats (Suc i)
            \<and> row_offset stats (Suc i) \<le> length (rows T)
            \<and> (c \<noteq> ''name'' \<longrightarrow>
                 lookup (columns T) (rows T ! (row_offset stats i + j)) c =
                   (case map_of (normalise_json_ordered (data (stats ! i) ! j)) c of
                      None \<Rightarrow> NaN | Some v \<Rightarrow> Val v)))
       \<and> (add_month dt_month (rename_last (coerce_stats parse T)) = Inr F \<longrightarrow>
            length (rows F) = length (rows T)
            \<and> (k < length (rows T) \<and> p < length (columns T)
                 \<and> last_segment (columns T ! p) \<noteq> ''month'' \<longrightarrow>
                 rows F ! k ! p =
                   (if str_contains ''stats'' (columns T ! p) then to_numeric parse (rows T ! k ! p)
                    else rows T ! k ! p)))"
proof -
  from T have wf: "wf_frame T"
    by (simp add: concat_no2_def wf_concat_frames)
  have a: "row_offset stats i + j < row_offset stats (Suc i)
            \<and> row_offset stats (Suc i) \<le> length (rows T)
            \<and> (c \<noteq> ''name'' \<longrightarrow>
                 lookup (columns T) (rows T ! (row_offset stats i + j)) c =
                   (case map_of (normalise_json_ordered (data (stats ! i) ! j)) c of
                      None \<Rightarrow> NaN | Some v \<Rightarrow> Val v))"
    if "i < length stats" and "j < length (data (stats ! i))"
    using that lookup_concat_no2 [OF T that, of c] row_offset_le [OF T, of "Suc i"]
    by (simp add: row_offset_Suc) (simp add: row_offset_def)
  have b: "length (rows F) = length (rows T)
            \<and> (k < length (rows T) \<and> p < length (columns T)
                 \<and> last_segment (columns T ! p) \<noteq> ''month'' \<longrightarrow>
                 rows F ! k ! p =
                   (if str_contains ''stats'' (columns T ! p) then to_numeric parse (rows T ! k ! p)
                    else rows T ! k ! p))"
    if F: "add_month dt_month (rename_last (coerce_stats parse T)) = Inr F"
    using finished_table_rows(1) [OF wf F] finished_table_rows(2) [OF wf F] by blast
  from a b distinct_columns_concat_no2 [OF T] show ?thesis
    by blast
qed

theorem rows_follow_input_order_witness:
  "concat_no2 stats_example names_example = Inr table_example
   \<and> distinct (columns table_example)
   \<and> (1::nat) < length stats_example \<and> (0::nat) < length (data (stats_example ! 1))
   \<and> row_offset stats_example 1 + 0 = 2
   \<and> row_offset stats_example (Suc 1) = 3
   \<and> lookup (columns table_example) (rows table_example ! 2) ''interval.from''
       = Val (JStr ''2022-01-01T00:00:00Z'')
   \<and> map_of (normalise_json_ordered (data (stats_example ! 1) ! 0)) ''interval.from''
       = Some (JStr ''2022-01-01T00:00:00Z'')
   \<and> add_month dt_month_example (rename_last (coerce_stats parse_example table_example))
       = Inr finished_example
   \<and> length (rows finished_example) = length (rows table_example)
   \<and> (2::nat) < length (rows table_example) \<and> (4::nat) < length (columns table_example)
   \<and> last_segment (columns table_example ! 4) \<noteq> ''month''
   \<and> rows finished_example ! 2 ! 4 = Val (JStr ''Berlin'')"
proof -
  note T = concat_no2_example and F = finished_table_example
  have i: "(1::nat) < length stats_example" and j: "(0::nat) < length (data (stats_example ! 1))"
    by (simp_all add: stats_example_def)
  have off: "row_offset stats_example 1 + 0 = 2" "row_offset stats_example (Suc 1) = 3"
    by (simp_all add: row_offset_def stats_example_def)
  have rec: "map_of (normalise_json_ordered (data (stats_example ! 1) ! 0)) ''interval.from''
       = Some (JStr ''2022-01-01T00:00:00Z'')"
    by code_simp
  have kp: "(2::nat) < length (rows table_example)" "(4::nat) < length (columns table_example)"
    "last_segment (columns table_example ! 4) \<noteq> ''month''"
    "\<not> str_contains ''stats'' (columns table_example ! 4)"
    "rows table_example ! 2 ! 4 = Val (JStr ''Berlin'')"
    by (simp_all add: table_example_def last_segment_def)
  note inst = rows_follow_input_order
    [OF T, of 1 0 "''interval.from''" dt_month_example parse_example finished_example 2 4]
  from inst have "distinct (columns table_example)"
    by simp
  moreover from inst i j
  have "lookup (columns table_example) (rows table_example ! (row_offset stats_example 1 + 0)) ''interval.from''
       = Val (JStr ''2022-01-01T00:00:00Z'')"
    unfolding rec by simp
  moreover from inst F kp
  have "length (rows finished_example) = length (rows table_example)
        \<and> rows finished_example ! 2 ! 4 = Val (JStr ''Berlin'')"
    by simp
  ultimately show ?thesis
    using T F i j off rec kp by simp
qed

subsection \<open>The spatial-unit label\<close>

lemma name_in_columns_concat_no2:
  assumes T: "concat_no2 stats names = Inr T" and len: "length names = length stats"
  shows "''name'' \<in> set (columns T)"
proof -
  let ?dfs = "build_no2_dfs stats names"
  from T have T': "concat_frames ?dfs = Inr T" by (simp add: concat_no2_def)
  from concat_frames_Inr [OF T'] have ne: "?dfs \<noteq> []"
    and cols: "columns T = union_labels (map columns ?dfs)"
    by simp_all
  from ne have 0: "0 < length stats"
    using length_build_no2_dfs [of stats names] by (cases stats) auto
  with len have "?dfs ! 0 = setitem_scalar (json_normalize (data (stats ! 0))) ''name'' (Val (JStr (names ! 0)))"
    by (simp add: nth_build_no2_dfs)
  then have "''name'' \<in> set (columns (?dfs ! 0))"
    by (simp add: columns_setitem_scalar)
  moreover from 0 have "?dfs ! 0 \<in> set ?dfs"
    by (simp add: length_build_no2_dfs)
  ultimately show ?thesis
    unfolding cols set_union_labels by auto
qed

lemma row_index_decomposition:
  assumes T: "concat_no2 stats names = Inr T" and k: "k < length (rows T)"
  shows "\<exists>i j. i < length stats \<and> j < length (data (stats ! i)) \<and> k = row_offset stats i + j"
proof -
  let ?xss = "map data stats"
  from k length_rows_concat_no2 [OF T] have "k < length (concat ?xss)"
    by (simp add: length_concat comp_def)
  from index_in_concat [OF this] obtain i j where
    "i < length ?xss" "j < length (?xss ! i)" "k = sum_list (map length (take i ?xss)) + j"
    by blast
  then have "i < length stats \<and> j < length (data (stats ! i)) \<and> k = row_offset stats i + j"
    by (simp add: row_offset_def take_map comp_def)
  then show ?thesis by blast
qed

text \<open>
  Claim C7. The requests are built one per selected capital, and the responses are
  one per request. Then the table has a name column; the row of the \<open>j\<close>-th record
  of the \<open>i\<close>-th response carries the name of the \<open>i\<close>-th selected capital; and
  every row of the table is such a row, so every row carries the name of its unit.
\<close>

theorem rows_tagged_with_unit_name:
  assumes T: "concat_no2 stats (map name selected) = Inr T"
    and len: "length stats = length (build_requests agg inp BBox selected)"
  shows "''name'' \<in> set (columns T)
       \<and> (i < length selected \<and> j < length (data (stats ! i)) \<longrightarrow>
            lookup (columns T) (rows T ! (row_offset stats i + j)) ''name''
              = Val (JStr (name (selected ! i))))
       \<and> (k < length (rows T) \<longrightarrow>
            (\<exists>i j. i < length selected \<and> j < length (data (stats ! i))
                   \<and> k = row_offset stats i + j
                   \<and> lookup (columns T) (rows T ! k) ''name'' = Val (JStr (name (selected ! i)))))"
proof -
  from len have len': "length stats = length selected"
    by (simp add: build_requests_def)
  have tag: "lookup (columns T) (rows T ! (row_offset stats i + j)) ''name''
              = Val (JStr (name (selected ! i)))"
    if "i < length selected" and "j < length (data (stats ! i))" for i j
    using that len' lookup_concat_no2 [OF T, of i j "''name''"]
    by (simp add: row_offset_def)
  have every: "\<exists>i j. i < length selected \<and> j < length (data (stats ! i))
                   \<and> k = row_offset stats i + j
                   \<and> lookup (columns T) (rows T ! k) ''name'' = Val (JStr (name (selected ! i)))"
    if "k < length (rows T)"
  proof -
    from row_index_decomposition [OF T that] obtain i j where
      ij: "i < length stats" "j < length (data (stats ! i))" "k = row_offset stats i + j"
      by blast
    with len' tag [of i j] show ?thesis by auto
  qed
  from name_in_columns_concat_no2 [OF T] len' tag [of i j] every show ?thesis
    by simp
qed

theorem rows_tagged_with_unit_name_witness:
  "concat_no2 stats_example (map name selected_example) = Inr table_example
   \<and> length stats_example = length (build_requests () () (\<lambda>g. g) selected_example)
   \<and> ''name'' \<in> set (columns table_example)
   \<and> (1::nat) < length selected_example \<and> (0::nat) < length (data (stats_example ! 1))
   \<and> (2::nat) < length (rows table_example)
   \<and> row_offset stats_example 1 + 0 = 2
   \<and> name (selected_example ! 1) = ''Berlin''
   \<and> lookup (columns table_example) (rows table_example ! 2) ''name'' = Val (JStr ''Berlin'')"
proof -
  have names: "map name selected_example = names_example"
    by (simp add: selected_example_def names_example_def)
  have T: "concat_no2 stats_example (map name selected_example) = Inr table_example"
    unfolding names by (rule concat_no2_example)
  have len: "length stats_example = length (build_requests () () (\<lambda>g. g) selected_example)"
    by (simp add: stats_example_def build_requests_def selected_example_def)
  have i: "(1::nat) < length selected_example" "(0::nat) < length (data (stats_example ! 1))"
    "(2::nat) < length (rows table_example)" "name (selected_example ! 1) = ''Berlin''"
    by (simp_all add: stats_example_def selected_example_def table_example_def)
  have off: "row_offset stats_example 1 + 0 = 2"
    by (simp add: row_offset_def stats_example_def)
  from rows_tagged_with_unit_name [OF T len, of 1 0 2] i off T len show ?thesis
    by simp
qed

subsection \<open>Numeric coercion\<close>

text \<open>
  Claim C2. The coercion is a total function of the table: it raises nothing. It
  keeps the columns and the number of rows. In a column whose label contains
  \<^verbatim>\<open>stats\<close> a cell with no numeric value becomes NaN and a cell with one becomes
  that number; a cell of any other column is unchanged. When the cell completes with
  the table \<open>F\<close>, the row is still there and the cell is still NaN (unless the
  statistic's column is renamed to month, which the month column then overwrites).
\<close>

theorem coerce_stats_unparseable_to_NaN:
  assumes "concat_no2 stats names = Inr T"
  shows "columns (coerce_stats parse T) = columns T
   \<and> length (rows (coerce_stats parse T)) = length (rows T)
   \<and> (k < length (rows T) \<and> p < length (columns T) \<longrightarrow>
        rows (coerce_stats parse T) ! k ! p =
          (if str_contains ''stats'' (columns T ! p)
           then (case numeric_value parse (rows T ! k ! p) of
                   None \<Rightarrow> NaN | Some r \<Rightarrow> Val (JNum r))
           else rows T ! k ! p))
   \<and> (add_month dt_month (rename_last (coerce_stats parse T)) = Inr F
        \<and> k < length (rows T) \<and> p < length (columns T)
        \<and> str_contains ''stats'' (columns T ! p)
        \<and> last_segment (columns T ! p) \<noteq> ''month''
        \<and> numeric_value parse (rows T ! k ! p) = None \<longrightarrow>
        length (rows F) = length (rows T) \<and> rows F ! k ! p = NaN)"
proof -
  from assms have wf: "wf_frame T"
    by (simp add: concat_no2_def wf_concat_frames)
  have step: "rows (coerce_stats parse T) ! k ! p =
          (if str_contains ''stats'' (columns T ! p)
           then (case numeric_value parse (rows T ! k ! p) of
                   None \<Rightarrow> NaN | Some r \<Rightarrow> Val (JNum r))
           else rows T ! k ! p)"
    if "k < length (rows T)" and "p < length (columns T)"
  proof -
    from wf that have "length (rows T ! k) = length (columns T)"
      by (simp add: wf_frame_def list_all_length)
    with that show ?thesis
      by (simp add: nth_rows_coerce_stats to_numeric_def)
  qed
  have final: "length (rows F) = length (rows T) \<and> rows F ! k ! p = NaN"
    if "add_month dt_month (rename_last (coerce_stats parse T)) = Inr F"
      and "k < length (rows T)" and "p < length (columns T)"
      and "str_contains ''stats'' (columns T ! p)"
      and "last_segment (columns T ! p) \<noteq> ''month''"
      and "numeric_value parse (rows T ! k ! p) = None"
    using that finished_table_rows(1) [OF wf that(1)] finished_table_rows(2) [OF wf that(1)]
    by (simp add: to_numeric_def)
  from step final show ?thesis
    by (simp add: columns_coerce_stats length_rows_coerce_stats)
qed

theorem coerce_stats_unparseable_to_NaN_witness:
  "concat_no2 stats_example names_example = Inr table_example
   \<and> length (rows (coerce_stats parse_example table_example)) = 3
   \<and> (1::nat) < length (rows table_example) \<and> (2::nat) < length (columns table_example)
   \<and> str_contains ''stats'' (columns table_example ! 2)
   \<and> numeric_value parse_example (rows table_example ! 1 ! 2) = None
   \<and> rows (coerce_stats parse_example table_example) ! 1 ! 2 = NaN
   \<and> rows (coerce_stats parse_example table_example) ! 2 ! 2 = Val (JNum 3.5)
   \<and> \<not> str_contains ''stats'' (columns table_example ! 4)
   \<and> rows (coerce_stats parse_example table_example) ! 1 ! 4 = Val (JStr ''Amsterdam'')
   \<and> add_month dt_month_example (rename_last (coerce_stats parse_example table_example))
       = Inr finished_example
   \<and> last_segment (columns table_example ! 2) \<noteq> ''month''
   \<and> length (rows finished_example) = 3
   \<and> rows finished_example ! 1 ! 2 = NaN"
proof -
  note T = concat_no2_example and F = finished_table_example
  have c: "str_contains ''stats'' (columns table_example ! 2)"
       "\<not> str_contains ''stats'' (columns table_example ! 4)"
       "last_segment (columns table_example ! 2) \<noteq> ''month''"
    by (simp_all add: table_example_def last_segment_def)
  have n: "numeric_value parse_example (rows table_example ! 1 ! 2) = None"
          "numeric_value parse_example (rows table_example ! 2 ! 2) = Some 3.5"
    by (simp_all add: table_example_def numeric_value_def parse_example_def)
  have r: "rows table_example ! 1 ! 4 = Val (JStr ''Amsterdam'')"
    by (simp add: table_example_def)
  have l: "length (rows table_example) = 3" "length (columns table_example) = 5"
    by (simp_all add: table_example_def)
  from coerce_stats_unparseable_to_NaN [OF T, of parse_example 1 2 dt_month_example finished_example]
       coerce_stats_unparseable_to_NaN [OF T, of parse_example 2 2 dt_month_example finished_example]
       coerce_stats_unparseable_to_NaN [OF T, of parse_example 1 4 dt_month_example finished_example]
  show ?thesis
    using T F c n r l by simp
qed

subsection \<open>Column names\<close>

lemma split_not_Nil: "split sep x \<noteq> []"
  by (induction x) (auto split: list.splits)

lemma split_no_sep: "sep \<notin> set x \<Longrightarrow> split sep x = [x]"
  by (induction x) auto

lemma split_at_sep: "split sep (p @ sep # q) = split sep p @ split sep q"
proof (induction p)
  case Nil
  then show ?case by simp
next
  case (Cons c p)
  then show ?case
    using split_not_Nil [of sep p] by (auto split: list.splits)
qed

lemma last_segment_no_dot: "CHR ''.'' \<notin> set x \<Longrightarrow> last_segment x = x"
  by (simp add: last_segment_def split_no_sep)

lemma last_segment_after_dot:
  "CHR ''.'' \<notin> set q \<Longrightarrow> last_segment (p @ CHR ''.'' # q) = q"
  by (simp add: last_segment_def split_at_sep split_no_sep)

text \<open>
  Claim C8. Renaming maps every column label to its last dot-separated segment and
  leaves the rows alone: a label without a dot is unchanged, and a label
  \<open>p.q\<close> with no dot in \<open>q\<close> becomes \<open>q\<close>, as for the two labels of the payload.
\<close>

theorem rename_last_segment:
  "columns (rename_last df) = map last_segment (columns df)
   \<and> rows (rename_last df) = rows df
   \<and> (CHR ''.'' \<notin> set x \<longrightarrow> last_segment x = x)
   \<and> (CHR ''.'' \<notin> set q \<longrightarrow> last_segment (p @ ''.'' @ q) = q)
   \<and> last_segment ''interval.from'' = ''from''
   \<and> last_segment ''outputs.default.bands.NO2.stats.mean'' = ''mean''"
proof -
  have "last_segment ''interval.from'' = ''from''"
    using last_segment_after_dot [of "''from''" "''interval''"] by simp
  moreover have "last_segment ''outputs.default.bands.NO2.stats.mean'' = ''mean''"
    using last_segment_after_dot [of "''mean''" "''outputs.default.bands.NO2.stats''"] by simp
  ultimately show ?thesis
    by (simp add: columns_rename_last rows_rename_last last_segment_no_dot last_segment_after_dot)
qed

theorem rename_last_segment_witness:
  "columns (rename_last table_example) = [''from'', ''to'', ''mean'', ''sampleCount'', ''name'']
   \<and> rows (rename_last table_example) = rows table_example
   \<and> CHR ''.'' \<notin> set ''name'' \<and> last_segment ''name'' = ''name''
   \<and> CHR ''.'' \<notin> set ''to'' \<and> last_segment (''interval'' @ ''.'' @ ''to'') = ''to''"
proof -
  have cols: "map last_segment (columns table_example) = [''from'', ''to'', ''mean'', ''sampleCount'', ''name'']"
    by (simp add: table_example_def last_segment_def)
  from rename_last_segment [of table_example "''name''" "''to''" "''interval''"]
  show ?thesis
    unfolding cols by simp
qed

subsection \<open>Running the cell again\<close>

text \<open>
  Claim C4. Running the cell on the variables a first run has left gives the same
  exception, if any, and the same variables and file: the cell is idempotent. The
  result depends on the payload only: two notebooks with the same responses and the same
  selected capitals raise alike, and when the run completes they hold the same table and
  write the same file, whatever their other variables held before.
\<close>

theorem normalization_cell_idempotent:
  "normalization_cell parse dt_month (snd (normalization_cell parse dt_month s))
     = normalization_cell parse dt_month s
   \<and> (pollution_stats t = pollution_stats s \<and> selected_capitals t = selected_capitals s \<longrightarrow>
        fst (normalization_cell parse dt_month t) = fst (normalization_cell parse dt_month s)
        \<and> (fst (normalization_cell parse dt_month s) = None \<longrightarrow>
             no2_df (snd (normalization_cell parse dt_month t))
               = no2_df (snd (normalization_cell parse dt_month s))
             \<and> csv_file (snd (normalization_cell parse dt_month t))
               = csv_file (snd (normalization_cell parse dt_month s))))"
  by (simp add: normalization_cell_def Let_def split: sum.splits)

theorem normalization_cell_idempotent_witness:
  "normalization_cell parse_example dt_month_example
      (snd (normalization_cell parse_example dt_month_example notebook_example))
     = normalization_cell parse_example dt_month_example notebook_example
   \<and> pollution_stats rerun_example = pollution_stats notebook_example
   \<and> selected_capitals rerun_example = selected_capitals notebook_example
   \<and> fst (normalization_cell parse_example dt_month_example notebook_example) = None
   \<and> fst (normalization_cell parse_example dt_month_example rerun_example) = None
   \<and> no2_df (snd (normalization_cell parse_example dt_month_example rerun_example))
       = Some finished_example
   \<and> no2_df (snd (normalization_cell parse_example dt_month_example notebook_example))
       = Some finished_example"
proof -
  have inputs: "pollution_stats rerun_example = pollution_stats notebook_example"
    "selected_capitals rerun_example = selected_capitals notebook_example"
    by (simp_all add: rerun_example_def notebook_example_def)
  from normalization_cell_idempotent
         [of parse_example dt_month_example notebook_example rerun_example]
       inputs normalization_cell_example
  show ?thesis by simp
qed

section \<open>Properties of the download call\<close>

lemma download_Inr:
  "download remote reqs = Inr results \<Longrightarrow>
   length results = length reqs \<and> (\<forall>i<length reqs. remote (reqs ! i) = Inr (results ! i))"
proof (induction reqs arbitrary: results)
  case Nil
  then show ?case by simp
next
  case (Cons q qs)
  from Cons.prems obtain r rs where r: "remote q = Inr r" and rs: "download remote qs = Inr rs"
    and res: "results = r # rs"
    by (auto split: sum.splits)
  from Cons.IH [OF rs] r res show ?case
    by (auto simp: nth_Cons split: nat.splits)
qed

text \<open>
  Claim C5. When the download call returns, the result list has one element per
  request, and the \<open>i\<close>-th result is the remote service's answer to the \<open>i\<close>-th
  request.
\<close>

theorem download_keeps_order:
  "download remote reqs = Inr results \<Longrightarrow>
   length results = length reqs \<and> (i < length reqs \<longrightarrow> remote (reqs ! i) = Inr (results ! i))"
  using download_Inr [of remote reqs results] by simp

theorem download_keeps_order_witness:
  "download remote_example [2, 3, 5] = Inr [4, 9, 25]
   \<and> length [4, 9, 25 :: nat] = length [2, 3, 5 :: nat]
   \<and> (1::nat) < length [2, 3, 5 :: nat]
   \<and> remote_example ([2, 3, 5] ! 1) = Inr ([4, 9, 25] ! 1)"
proof -
  have d: "download remote_example [2, 3, 5] = Inr [4, 9, 25]"
    by (simp add: remote_example_def)
  from download_keeps_order [OF d, of 1] d show ?thesis
    by simp
qed

lemma download_fails:
  "q \<in> set reqs \<Longrightarrow> isl (remote q) \<Longrightarrow> isl (download remote reqs)"
  by (induction reqs) (auto split: sum.splits)

lemma download_succeeds:
  "\<forall>q\<in>set reqs. \<not> isl (remote q) \<Longrightarrow> download remote reqs = Inr (map (\<lambda>q. projr (remote q)) reqs)"
  by (induction reqs) (auto split: sum.splits)

text \<open>
  Claim C6. When some request of the list fails, the call raises and returns no
  result list; when none fails, it returns the answers to all requests.
\<close>

theorem download_all_or_nothing:
  "(if \<exists>q\<in>set reqs. isl (remote q)
    then \<exists>e. download remote reqs = Inl e
    else download remote reqs = Inr (map (\<lambda>q. projr (remote q)) reqs))"
proof (cases "\<exists>q\<in>set reqs. isl (remote q)")
  case True
  then obtain q where "q \<in> set reqs" and "isl (remote q)" by blast
  then have "isl (download remote reqs)" by (rule download_fails)
  with True show ?thesis
    by (cases "download remote reqs") auto
next
  case False
  with download_succeeds [of reqs remote] show ?thesis by auto
qed

theorem download_all_or_nothing_witness:
  "(\<exists>q\<in>set [2, 13, 5]. isl (remote_example q))
   \<and> (\<exists>e. download remote_example [2, 13, 5] = Inl e)
   \<and> \<not> (\<exists>q\<in>set [2, 3, 5]. isl (remote_example q))
   \<and> download remote_example [2, 3, 5] = Inr (map (\<lambda>q. projr (remote_example q)) [2, 3, 5])"
proof -
  have bad: "\<exists>q\<in>set [2, 13, 5]. isl (remote_example q)"
    by (simp add: remote_example_def)
  have good: "\<not> (\<exists>q\<in>set [2, 3, 5]. isl (remote_example q))"
    by (simp add: remote_example_def)
  from download_all_or_nothing [of "[2, 13, 5]" remote_example] bad
  have 1: "\<exists>e. download remote_example [2, 13, 5] = Inl e"
    by (simp only: if_True)
  from download_all_or_nothing [of "[2, 3, 5]" remote_example] good
  have 2: "download remote_example [2, 3, 5] = Inr (map (\<lambda>q. projr (remote_example q)) [2, 3, 5])"
    by (simp only: if_False)
  from bad 1 good 2 show ?thesis by blast
qed

section \<open>Properties of the evalscript\<close>

lemma validate_iff: "validate s \<longleftrightarrow> SCL s \<notin> {0, 1, 3, 7, 8, 9, 10}"
  by (simp add: validate_def invalid_def)

text \<open>On a non-empty array the quartile index is in range, so the read is defined.\<close>

lemma getFirstQuartileValue_in_range:
  "vs \<noteq> [] \<Longrightarrow> getFirstQuartileValue vs = Some (sort vs ! (length vs div 4))"
  by (cases vs) (simp_all add: getFirstQuartileValue_def getFirstQuartile_def Let_def)

text \<open>
  Claim C9. With \<open>valid\<close> the samples whose class is none of 0, 1, 3, 7, 8, 9, 10 and
  \<open>n\<close> their number: when there is none, \<open>evaluatePixel\<close> returns -32768 in all four
  bands; otherwise the first three outputs are 10000 times the element at index
  \<open>n div 4\<close> of the ascending-sorted values of B04, B03 and B02, and the fourth is 10000
  times the NDVI of the first-quartile B08 and B04 values.
\<close>

theorem evaluatePixel_first_quartile:
  "(let valid = filter (\<lambda>s. SCL s \<notin> {0, 1, 3, 7, 8, 9, 10}) samples;
        q = (\<lambda>band. sort (map band valid) ! (length valid div 4))
    in evaluatePixel samples =
         (if valid = []
          then [Num (- 32768), Num (- 32768), Num (- 32768), Num (- 32768)]
          else [Num (q B04 * 10000), Num (q B03 * 10000), Num (q B02 * 10000),
                js_times (js_div (q B08 - q B04) (q B08 + q B04)) 10000]))"
proof -
  define valid where "valid = filter (\<lambda>s. SCL s \<notin> {0, 1, 3, 7, 8, 9, 10}) samples"
  define k where "k = length valid div 4"
  have v: "filter validate samples = valid"
    by (simp add: valid_def validate_iff [abs_def])
  have "evaluatePixel samples =
         (if valid = []
          then [Num (- 32768), Num (- 32768), Num (- 32768), Num (- 32768)]
          else [Num (sort (map B04 valid) ! k * 10000),
                Num (sort (map B03 valid) ! k * 10000),
                Num (sort (map B02 valid) ! k * 10000),
                js_times (js_div (sort (map B08 valid) ! k - sort (map B04 valid) ! k)
                                 (sort (map B08 valid) ! k + sort (map B04 valid) ! k)) 10000])"
    by (simp add: evaluatePixel_def v Let_def getFirstQuartileValue_in_range ndvi_of_def k_def)
  then show ?thesis
    unfolding Let_def valid_def k_def by simp
qed

theorem evaluatePixel_first_quartile_witness:
  "evaluatePixel samples_example = [Num 2000, Num 2000, Num 2000, Num (10000 / 3)]
   \<and> evaluatePixel cloudy_example = [Num (- 32768), Num (- 32768), Num (- 32768), Num (- 32768)]"
  using evaluatePixel_first_quartile [of samples_example]
    evaluatePixel_first_quartile [of cloudy_example]
  by (simp add: samples_example_def cloudy_example_def Let_def js_div_def)

section \<open>Properties of the forest change\<close>

lemma astype_int_FOREST:
  "astype_int (FOREST NDVI) = map (\<lambda>(year, px). (year, map forest_bit px)) NDVI"
  by (auto simp: astype_int_def FOREST_def gt_def forest_bit_def)

lemma length_forest_diff: "length (forest_diff NDVI) = length NDVI - 1"
  by (simp add: forest_diff_def diff_year_def astype_int_FOREST)

lemma nth_forest_diff:
  assumes "Suc k < length NDVI"
  shows "forest_diff NDVI ! k =
           (fst (NDVI ! Suc k),
            map (\<lambda>(c, p). c - p) (zip (map forest_bit (snd (NDVI ! Suc k))) (map forest_bit (snd (NDVI ! k)))))"
proof -
  let ?A = "map (\<lambda>(year, px). (year, map forest_bit px)) NDVI"
  from assms have k: "k < length (zip (tl ?A) ?A)" by simp
  from assms have "zip (tl ?A) ?A ! k = (?A ! Suc k, ?A ! k)"
    by (simp add: nth_tl)
  with k assms show ?thesis
    by (simp add: forest_diff_def diff_year_def astype_int_FOREST case_prod_beta)
qed

lemma map_fst_forest_diff: "map fst (forest_diff NDVI) = tl (map fst NDVI)"
  by (rule nth_equalityI) (simp_all add: length_forest_diff nth_forest_diff nth_tl)

lemma map_of_nth:
  "distinct (map fst xs) \<Longrightarrow> k < length xs \<Longrightarrow> map_of xs (fst (xs ! k)) = Some (snd (xs ! k))"
  by simp


lemma length_CHANGE: "length (CHANGE NDVI) = length NDVI"
  by (simp add: CHANGE_def setitem_aligned_def)

lemma CHANGE_first_year:
  assumes d: "distinct (map fst NDVI)" and ne: "NDVI \<noteq> []"
  shows "CHANGE NDVI ! 0 = (fst (NDVI ! 0), replicate (length (snd (NDVI ! 0))) None)"
proof -
  from ne obtain y px rest where N: "NDVI = (y, px) # rest" by (cases NDVI) auto
  with d have "y \<notin> set (map fst (forest_diff NDVI))"
    unfolding map_fst_forest_diff by simp
  then have "map_of (forest_diff NDVI) y = None"
    by (simp add: map_of_eq_None_iff)
  with N show ?thesis
    by (simp add: CHANGE_def setitem_aligned_def)
qed

lemma CHANGE_later_year:
  assumes d: "distinct (map fst NDVI)" and k: "Suc k < length NDVI"
  shows "CHANGE NDVI ! Suc k =
           (fst (NDVI ! Suc k),
            map (\<lambda>(c, p). Some (real_of_int (forest_bit c - forest_bit p)))
              (zip (snd (NDVI ! Suc k)) (snd (NDVI ! k))))"
proof -
  let ?D = "forest_diff NDVI"
  from d have dD: "distinct (map fst ?D)"
    unfolding map_fst_forest_diff by (rule distinct_tl)
  from k have kD: "k < length ?D" by (simp add: length_forest_diff)
  from map_of_nth [OF dD kD] k
  have "map_of ?D (fst (NDVI ! Suc k)) = Some (snd (?D ! k))"
    by (simp add: nth_forest_diff)
  with k show ?thesis
    by (simp add: CHANGE_def setitem_aligned_def nth_forest_diff case_prod_beta zip_map_map)
qed

lemma forest_bit_diff:
  "forest_bit c - forest_bit p = - 1 \<or> forest_bit c - forest_bit p = 0 \<or> forest_bit c - forest_bit p = 1"
  by (simp add: forest_bit_def)

lemma forest_diff_values:
  "(year, px) \<in> set (forest_diff NDVI) \<Longrightarrow> d \<in> set px \<Longrightarrow> d = - 1 \<or> d = 0 \<or> d = 1"
proof -
  assume row: "(year, px) \<in> set (forest_diff NDVI)" and d: "d \<in> set px"
  from row obtain k where k: "k < length (forest_diff NDVI)" and eq: "forest_diff NDVI ! k = (year, px)"
    by (auto simp: in_set_conv_nth)
  from k have "Suc k < length NDVI" by (simp add: length_forest_diff)
  from nth_forest_diff [OF this] eq
  have "px = map (\<lambda>(c, p). c - p) (zip (map forest_bit (snd (NDVI ! Suc k))) (map forest_bit (snd (NDVI ! k))))"
    by simp
  with d obtain c p where "d = forest_bit c - forest_bit p"
    by (auto simp: zip_map_map)
  with forest_bit_diff [of c p] show ?thesis by simp
qed

lemma CHANGE_values_or_NaN:
  assumes row: "(year, px) \<in> set (CHANGE NDVI)" and v: "v \<in> set px"
  shows "v = None \<or> v = Some (- 1) \<or> v = Some 0 \<or> v = Some 1"
proof -
  from row obtain px0 where "(year, px0) \<in> set NDVI"
    and px: "px = (case map_of (forest_diff NDVI) year of
                     None \<Rightarrow> replicate (length px0) None
                   | Some vals \<Rightarrow> map (\<lambda>v. Some (real_of_int v)) vals)"
    by (auto simp: CHANGE_def setitem_aligned_def)
  show ?thesis
  proof (cases "map_of (forest_diff NDVI) year")
    case None
    with px v show ?thesis by auto
  next
    case (Some vals)
    then have "(year, vals) \<in> set (forest_diff NDVI)" by (rule map_of_SomeD)
    moreover from Some px v obtain d where "d \<in> set vals" and "v = Some (real_of_int d)"
      by auto
    ultimately show ?thesis
      using forest_diff_values [of year vals NDVI d] by auto
  qed
qed

lemma CHANGE_example:
  "CHANGE NDVI_example = [(2018, [None, None, None]), (2019, [Some (- 1), Some 1, Some 0])]"
  by code_simp

text \<open>
  Claim C10, as amended. The change variable the dataset holds has one raster per year
  of the dataset. Every pixel of it is NaN, -1, 0 or 1. For every year after the first,
  every pixel is the difference of the integer forest masks of that year and the year
  before, which is -1 (forest lost), 0 (no change) or 1 (forest gained) and never NaN.
  For the first year, which has no year before it, every pixel is NaN.
\<close>

theorem CHANGE_values:
  "((year, px) \<in> set (CHANGE NDVI) \<and> v \<in> set px \<longrightarrow>
      v = None \<or> v = Some (- 1) \<or> v = Some 0 \<or> v = Some 1)
   \<and> length (CHANGE NDVI) = length NDVI
   \<and> (distinct (map fst NDVI) \<and> NDVI \<noteq> [] \<longrightarrow>
        CHANGE NDVI ! 0 = (fst (NDVI ! 0), replicate (length (snd (NDVI ! 0))) None))
   \<and> (distinct (map fst NDVI) \<and> Suc k < length NDVI \<longrightarrow>
        CHANGE NDVI ! Suc k =
          (fst (NDVI ! Suc k),
           map (\<lambda>(c, p). Some (real_of_int (forest_bit c - forest_bit p)))
             (zip (snd (NDVI ! Suc k)) (snd (NDVI ! k))))
        \<and> (w \<in> set (snd (CHANGE NDVI ! Suc k)) \<longrightarrow>
             w = Some (- 1) \<or> w = Some 0 \<or> w = Some 1))"
proof -
  have later: "w = Some (- 1) \<or> w = Some 0 \<or> w = Some 1"
    if "distinct (map fst NDVI)" and "Suc k < length NDVI"
      and "w \<in> set (snd (CHANGE NDVI ! Suc k))"
  proof -
    from that obtain c p where "w = Some (real_of_int (forest_bit c - forest_bit p))"
      by (auto simp: CHANGE_later_year)
    with forest_bit_diff [of c p] show ?thesis by auto
  qed
  from later CHANGE_values_or_NaN [of year px NDVI v] CHANGE_first_year [of NDVI]
    CHANGE_later_year [of NDVI k] length_CHANGE [of NDVI]
  show ?thesis by blast
qed

text \<open>
  As stated for every pixel of the variable the claim fails: the variable is stored
  aligned to the years of the dataset, and its first year holds NaN, which is none of
  -1, 0 and 1.
\<close>

theorem CHANGE_first_year_is_NaN:
  "CHANGE NDVI_example ! 0 = (2018, [None, None, None])"
  by (simp add: CHANGE_example)

theorem CHANGE_values_witness:
  "(2018, [None, None, None]) \<in> set (CHANGE NDVI_example) \<and> None \<in> set [None, None, None :: real option]
   \<and> distinct (map fst NDVI_example) \<and> NDVI_example \<noteq> [] \<and> Suc 0 < length NDVI_example
   \<and> length (CHANGE NDVI_example) = 2
   \<and> CHANGE NDVI_example ! 0 = (2018, [None, None, None])
   \<and> CHANGE NDVI_example ! Suc 0 = (2019, [Some (- 1), Some 1, Some 0])
   \<and> Some (- 1) \<in> set (snd (CHANGE NDVI_example ! Suc 0))"
proof -
  have h: "distinct (map fst NDVI_example)" "NDVI_example \<noteq> []" "Suc 0 < length NDVI_example"
    by (simp_all add: NDVI_example_def)
  note inst = CHANGE_values [of 2018 "[None, None, None]" NDVI_example None 0 "Some (- 1)"]
  from inst h have first: "CHANGE NDVI_example ! 0
      = (fst (NDVI_example ! 0), replicate (length (snd (NDVI_example ! 0))) None)"
    by blast
  from inst have len: "length (CHANGE NDVI_example) = length NDVI_example"
    by blast
  have ex: "fst (NDVI_example ! 0) = 2018" "length (snd (NDVI_example ! 0)) = 3"
    "length NDVI_example = 2"
    by (simp_all add: NDVI_example_def)
  from first len h show ?thesis
    unfolding ex by (simp add: CHANGE_example numeral_3_eq_3)
qed

end
